theory Spec2Isabelle
  imports Main "HOL-Library.Sublist"
begin

section \<open>The DOM fragment read by the script\<close>

text \<open>
  The script \<^verbatim>\<open>src/web_static/index.js\<close> is
  \<^verbatim>\<open>
  htmx.onLoad(function () {
      document.body.addEventListener("htmx:sseBeforeMessage", function (event) {
          if (event.target.querySelector("input[type=range][data-dragging=true]") !== null) {
              event.preventDefault();
          }
      });
  });
  \<close>
  It runs in an HTML document. An element of that document has a local name (lower case
  for HTML elements), a set of attributes with unique lower-case names, and a list of
  child elements in document order. Text and comment nodes are left out: neither
  \<^verbatim>\<open>querySelector\<close> nor the script looks at them.
\<close>

datatype element =
  Element (localName: string) (attrs: "string \<Rightarrow> string option") (children: "element list")

text \<open>The descendants of an element in tree order (preorder, depth first), the element
  itself excluded.\<close>

fun descendants :: "element \<Rightarrow> element list" where
  "descendants (Element n a cs) = concat (map (\<lambda>c. c # descendants c) cs)"

text \<open>The element reached from \<open>e\<close> by a path of child indices.\<close>

fun subtree_at :: "element \<Rightarrow> nat list \<Rightarrow> element option" where
  "subtree_at e [] = Some e"
| "subtree_at e (i # p) =
     (if i < length (children e) then subtree_at (children e ! i) p else None)"

section \<open>Selectors\<close>

text \<open>
  \<^verbatim>\<open>querySelector\<close> takes the selector as a string and throws a SyntaxError when the
  string is not a selector. The fragment of the selector grammar modelled here is a type
  selector followed by attribute selectors \<^verbatim>\<open>[name=value]\<close> with unquoted identifiers;
  every other string is rejected. The script's only selector lies inside the fragment.
\<close>

datatype error = SyntaxError

datatype attr_selector = AttrEq string string

datatype compound_selector = Compound string "attr_selector list"

definition is_upper :: "char \<Rightarrow> bool" where
  "is_upper c = (65 \<le> (of_char c :: nat) \<and> (of_char c :: nat) \<le> 90)"

definition is_lower :: "char \<Rightarrow> bool" where
  "is_lower c = (97 \<le> (of_char c :: nat) \<and> (of_char c :: nat) \<le> 122)"

definition is_digit :: "char \<Rightarrow> bool" where
  "is_digit c = (48 \<le> (of_char c :: nat) \<and> (of_char c :: nat) \<le> 57)"

definition ascii_lower :: "char \<Rightarrow> char" where
  "ascii_lower c = (if is_upper c then char_of ((of_char c :: nat) + 32) else c)"

definition is_name_start :: "char \<Rightarrow> bool" where
  "is_name_start c = (is_upper c \<or> is_lower c \<or> c = CHR ''_'')"

definition is_name_char :: "char \<Rightarrow> bool" where
  "is_name_char c = (is_name_start c \<or> is_digit c \<or> c = CHR ''-'')"

fun is_ident :: "string \<Rightarrow> bool" where
  "is_ident [] = False"
| "is_ident (c # cs) = (is_name_start c \<and> list_all is_name_char cs)"

text \<open>\<open>split_at c s\<close> cuts \<open>s\<close> at the first \<open>c\<close>, which is dropped.\<close>

fun split_at :: "char \<Rightarrow> string \<Rightarrow> (string \<times> string) option" where
  "split_at c [] = None"
| "split_at c (x # xs) =
     (if x = c then Some ([], xs)
      else case split_at c xs of None \<Rightarrow> None | Some (a, b) \<Rightarrow> Some (x # a, b))"

lemma split_at_length: "split_at c s = Some (a, b) \<Longrightarrow> length b < length s"
  by (induction s arbitrary: a b) (auto split: if_splits option.splits)

function parse_attr_selectors :: "string \<Rightarrow> attr_selector list option" where
  "parse_attr_selectors [] = Some []"
| "parse_attr_selectors (c # s) =
     (if c \<noteq> CHR ''['' then None
      else case split_at CHR '']'' s of
        None \<Rightarrow> None
      | Some (inner, rest) \<Rightarrow>
          (case split_at CHR ''='' inner of
             None \<Rightarrow> None
           | Some (n, v) \<Rightarrow>
               if is_ident n \<and> is_ident v
               then (case parse_attr_selectors rest of
                       None \<Rightarrow> None
                     | Some sels \<Rightarrow> Some (AttrEq n v # sels))
               else None))"
  by pat_completeness auto
termination
  by (relation "measure length") (auto dest: split_at_length)

definition parse_selector :: "string \<Rightarrow> compound_selector option" where
  "parse_selector s =
     (let tag = takeWhile (\<lambda>c. c \<noteq> CHR ''['') s;
          rest = dropWhile (\<lambda>c. c \<noteq> CHR ''['') s
      in if is_ident tag
         then (case parse_attr_selectors rest of
                 None \<Rightarrow> None
               | Some sels \<Rightarrow> Some (Compound tag sels))
         else None)"

text \<open>
  Matching against an HTML element of an HTML document: the type selector and the
  attribute names are compared in lower case; an attribute value is compared exactly,
  except for the attributes whose values the HTML Standard compares ASCII
  case-insensitively in selectors (\<^verbatim>\<open>type\<close> is one of them, \<^verbatim>\<open>data-*\<close> attributes
  are not).
\<close>

definition case_insensitive_values :: "string list" where
  "case_insensitive_values =
     [''accept'', ''accept-charset'', ''align'', ''alink'', ''axis'', ''bgcolor'',
      ''charset'', ''checked'', ''clear'', ''codetype'', ''color'', ''compact'',
      ''declare'', ''defer'', ''dir'', ''direction'', ''disabled'', ''enctype'', ''face'',
      ''frame'', ''hreflang'', ''http-equiv'', ''lang'', ''language'', ''link'', ''media'',
      ''method'', ''multiple'', ''nohref'', ''noresize'', ''noshade'', ''nowrap'',
      ''readonly'', ''rel'', ''rev'', ''rules'', ''scope'', ''scrolling'', ''selected'',
      ''shape'', ''target'', ''text'', ''type'', ''valign'', ''valuetype'', ''vlink'']"

fun matches_attr :: "element \<Rightarrow> attr_selector \<Rightarrow> bool" where
  "matches_attr e (AttrEq n v) =
     (let name = map ascii_lower n
      in case attrs e name of
           None \<Rightarrow> False
         | Some w \<Rightarrow>
             if name \<in> set case_insensitive_values
             then map ascii_lower w = map ascii_lower v
             else w = v)"

fun matches :: "compound_selector \<Rightarrow> element \<Rightarrow> bool" where
  "matches (Compound tag sels) e =
     (localName e = map ascii_lower tag \<and> list_all (matches_attr e) sels)"

text \<open>\<^verbatim>\<open>element.querySelector(selectors)\<close>: the first descendant in tree order that
  matches, \<open>None\<close> for \<^verbatim>\<open>null\<close>.\<close>

definition querySelector :: "element \<Rightarrow> string \<Rightarrow> error + element option" where
  "querySelector e s =
     (case parse_selector s of
        None \<Rightarrow> Inl SyntaxError
      | Some sel \<Rightarrow> Inr (find (matches sel) (descendants e)))"

section \<open>Events and the page\<close>

text \<open>
  htmx dispatches \<^verbatim>\<open>htmx:sseBeforeMessage\<close> on the element that receives the
  server-sent message; the event bubbles to \<^verbatim>\<open>document.body\<close>.
  \<^verbatim>\<open>preventDefault()\<close> sets the canceled flag of a cancelable event and does nothing
  to any other.
\<close>

record event =
  event_type :: string
  target :: element
  cancelable :: bool
  defaultPrevented :: bool

definition preventDefault :: "event \<Rightarrow> event" where
  "preventDefault ev = (if cancelable ev then ev\<lparr>defaultPrevented := True\<rparr> else ev)"

text \<open>
  What the callbacks can reach beside the event: the document's body, the event listener
  list of the body (event type and identity of the callback function object) and the
  number of function objects created so far.
\<close>

record page =
  body :: element
  listeners :: "(string \<times> nat) list"
  function_objects :: nat

text \<open>\<^verbatim>\<open>addEventListener\<close> appends the listener unless the list already holds one with
  the same type and the same callback object.\<close>

definition addEventListener :: "string \<Rightarrow> nat \<Rightarrow> page \<Rightarrow> page" where
  "addEventListener ty cb pg =
     (if (ty, cb) \<in> set (listeners pg) then pg
      else pg\<lparr>listeners := listeners pg @ [(ty, cb)]\<rparr>)"

section \<open>The script\<close>

text \<open>The condition of the \<^verbatim>\<open>if\<close> on line 3.\<close>

definition drag_selector :: string where
  "drag_selector = ''input[type=range][data-dragging=true]''"

definition guard :: "event \<Rightarrow> error + bool" where
  "guard ev =
     (case querySelector (target ev) drag_selector of
        Inl err \<Rightarrow> Inl err
      | Inr found \<Rightarrow> Inr (found \<noteq> None))"

text \<open>The listener of lines 2 to 6. It returns the page and the event as it leaves them,
  or the exception it throws.\<close>

definition handler :: "page \<Rightarrow> event \<Rightarrow> error + page \<times> event" where
  "handler pg ev =
     (case guard ev of
        Inl err \<Rightarrow> Inl err
      | Inr found \<Rightarrow> if found then Inr (pg, preventDefault ev) else Inr (pg, ev))"

text \<open>The function passed to \<^verbatim>\<open>htmx.onLoad\<close> (lines 1 to 7): each call evaluates the
  function expression of line 2, which creates a new function object, and adds it to the
  body's listeners.\<close>

definition onLoad_callback :: "page \<Rightarrow> page" where
  "onLoad_callback pg =
     (let f = function_objects pg
      in addEventListener ''htmx:sseBeforeMessage'' f (pg\<lparr>function_objects := Suc f\<rparr>))"

text \<open>
  \<^verbatim>\<open>htmx.onLoad(callback)\<close> is htmx's \<^verbatim>\<open>htmx.on("htmx:load", ...)\<close>: the callback
  runs at every \<^verbatim>\<open>htmx:load\<close> event, which htmx triggers once on the body when it
  initialises and again for every element it swaps into the document.
\<close>

definition htmx_load :: "page \<Rightarrow> page" where
  "htmx_load pg = onLoad_callback pg"

definition listeners_for :: "string \<Rightarrow> page \<Rightarrow> (string \<times> nat) list" where
  "listeners_for ty pg = filter (\<lambda>l. fst l = ty) (listeners pg)"

text \<open>
  Delivery of an event to the body: every listener registered for the event's type is
  invoked in order. All of them are function objects created on line 2, so each runs
  \<open>handler\<close>; an exception thrown by one is reported and the next still runs. The last
  component counts the invocations.
\<close>

fun invoke_all :: "(string \<times> nat) list \<Rightarrow> page \<Rightarrow> event \<Rightarrow> nat \<Rightarrow> page \<times> event \<times> nat" where
  "invoke_all [] pg ev k = (pg, ev, k)"
| "invoke_all (l # ls) pg ev k =
     (case handler pg ev of
        Inl err \<Rightarrow> invoke_all ls pg ev (Suc k)
      | Inr (pg', ev') \<Rightarrow> invoke_all ls pg' ev' (Suc k))"

definition dispatchEvent :: "page \<Rightarrow> event \<Rightarrow> page \<times> event \<times> nat" where
  "dispatchEvent pg ev = invoke_all (listeners_for (event_type ev) pg) pg ev 0"

section \<open>The traversal, step by step\<close>

text \<open>
  \<^verbatim>\<open>querySelector\<close> as the loop it is: a work list of elements still to visit, one unit
  of fuel for each turn of the loop. \<open>None\<close> means that the fuel ran out before the loop
  ended.
\<close>

fun element_count :: "element \<Rightarrow> nat" where
  "element_count (Element n a cs) = Suc (sum_list (map element_count cs))"

fun first_match :: "nat \<Rightarrow> (element \<Rightarrow> bool) \<Rightarrow> element list \<Rightarrow> element option option" where
  "first_match 0 P work = None"
| "first_match (Suc n) P [] = Some None"
| "first_match (Suc n) P (e # work) =
     (if P e then Some (Some e) else first_match n P (children e @ work))"

definition querySelector_steps ::
    "nat \<Rightarrow> element \<Rightarrow> string \<Rightarrow> (error + element option) option" where
  "querySelector_steps n e s =
     (case parse_selector s of
        None \<Rightarrow> Some (Inl SyntaxError)
      | Some sel \<Rightarrow> map_option Inr (first_match n (matches sel) (children e)))"

definition handler_steps :: "nat \<Rightarrow> page \<Rightarrow> event \<Rightarrow> (error + page \<times> event) option" where
  "handler_steps n pg ev =
     (case querySelector_steps n (target ev) drag_selector of
        None \<Rightarrow> None
      | Some (Inl err) \<Rightarrow> Some (Inl err)
      | Some (Inr found) \<Rightarrow>
          Some (if found \<noteq> None then Inr (pg, preventDefault ev) else Inr (pg, ev)))"

section \<open>The specification's vocabulary\<close>

text \<open>
  These two predicates follow the specification's words, not the script. A range-input
  control is an \<^verbatim>\<open>input\<close> element whose \<^verbatim>\<open>type\<close> attribute is \<^verbatim>\<open>range\<close> in any
  letter case (the attribute is an enumerated one). A control is marked as being dragged
  when its drag-marker attribute \<^verbatim>\<open>data-dragging\<close> is set to \<^verbatim>\<open>true\<close>.
\<close>

definition range_input :: "element \<Rightarrow> bool" where
  "range_input e =
     (localName e = ''input'' \<and>
      (case attrs e ''type'' of None \<Rightarrow> False | Some v \<Rightarrow> map ascii_lower v = ''range''))"

definition being_dragged :: "element \<Rightarrow> bool" where
  "being_dragged e = (attrs e ''data-dragging'' = Some ''true'')"

section \<open>Example documents\<close>

text \<open>A slider whose drag marker holds \<open>v\<close>, a slider without marker, a region holding
  the given children, a live-update event on a target, and a page before any listener is
  attached.\<close>

definition slider :: "string \<Rightarrow> element" where
  "slider v = Element ''input'' [''type'' \<mapsto> ''range'', ''data-dragging'' \<mapsto> v] []"

definition plain_slider :: element where
  "plain_slider = Element ''input'' [''type'' \<mapsto> ''range''] []"

definition region :: "element list \<Rightarrow> element" where
  "region cs = Element ''div'' Map.empty cs"

definition two_slider_body :: element where
  "two_slider_body = Element ''body'' Map.empty [slider ''true'', region [slider ''true'']]"

definition update_event :: "element \<Rightarrow> event" where
  "update_event t =
     \<lparr>event_type = ''htmx:sseBeforeMessage'', target = t, cancelable = True,
      defaultPrevented = False\<rparr>"

definition initial_page :: "element \<Rightarrow> page" where
  "initial_page b = \<lparr>body = b, listeners = [], function_objects = 0\<rparr>"

section \<open>What the selector of line 3 selects\<close>

lemma parse_drag_selector:
  "parse_selector drag_selector =
     Some (Compound ''input'' [AttrEq ''type'' ''range'', AttrEq ''data-dragging'' ''true''])"
  by code_simp

lemma lower_input: "map ascii_lower ''input'' = ''input''"
  by code_simp

lemma lower_type: "map ascii_lower ''type'' = ''type''"
  by code_simp

lemma lower_range: "map ascii_lower ''range'' = ''range''"
  by code_simp

lemma lower_data_dragging: "map ascii_lower ''data-dragging'' = ''data-dragging''"
  by code_simp

lemma type_insensitive: "''type'' \<in> set case_insensitive_values"
  by code_simp

lemma data_dragging_sensitive: "''data-dragging'' \<notin> set case_insensitive_values"
  by code_simp

lemma matches_attr_type:
  "matches_attr e (AttrEq ''type'' ''range'') =
     (case attrs e ''type'' of None \<Rightarrow> False | Some w \<Rightarrow> map ascii_lower w = ''range'')"
  unfolding matches_attr.simps Let_def lower_type lower_range
  by (simp add: type_insensitive split: option.splits)

lemma matches_attr_dragging:
  "matches_attr e (AttrEq ''data-dragging'' ''true'') = (attrs e ''data-dragging'' = Some ''true'')"
  unfolding matches_attr.simps Let_def lower_data_dragging
  by (simp add: data_dragging_sensitive split: option.splits)

lemma matches_drag:
  "matches (Compound ''input'' [AttrEq ''type'' ''range'', AttrEq ''data-dragging'' ''true'']) e
     = (range_input e \<and> being_dragged e)"
  unfolding matches.simps lower_input range_input_def being_dragged_def
  by (simp del: matches_attr.simps add: matches_attr_type matches_attr_dragging)

lemma querySelector_drag:
  "querySelector e drag_selector =
     Inr (find (\<lambda>d. range_input d \<and> being_dragged d) (descendants e))"
proof -
  have "matches (Compound ''input'' [AttrEq ''type'' ''range'', AttrEq ''data-dragging'' ''true''])
          = (\<lambda>d. range_input d \<and> being_dragged d)"
    by (rule ext) (rule matches_drag)
  then show ?thesis
    by (simp add: querySelector_def parse_drag_selector)
qed

lemma guard_iff:
  "guard ev = Inr (\<exists>d \<in> set (descendants (target ev)). range_input d \<and> being_dragged d)"
  by (auto simp: guard_def querySelector_drag find_None_iff)

lemma handler_cases:
  "handler pg ev =
     Inr (pg, if \<exists>d \<in> set (descendants (target ev)). range_input d \<and> being_dragged d
              then preventDefault ev else ev)"
  by (auto simp: handler_def guard_iff)

section \<open>Facts about the trees\<close>

lemma descendants_children:
  "descendants e = concat (map (\<lambda>c. c # descendants c) (children e))"
  by (cases e) simp

lemma element_count_children:
  "element_count e = Suc (sum_list (map element_count (children e)))"
  by (cases e) simp

lemma subtree_at_append:
  "subtree_at e p = Some t \<Longrightarrow> subtree_at e (p @ r) = subtree_at t r"
  by (induction e p rule: subtree_at.induct) (auto split: if_splits)

lemma descendant_path:
  "d \<in> set (descendants t) \<Longrightarrow> \<exists>r. r \<noteq> [] \<and> subtree_at t r = Some d"
proof (induction t arbitrary: d rule: descendants.induct)
  case (1 n a cs)
  then obtain c where c: "c \<in> set cs" and d: "d = c \<or> d \<in> set (descendants c)"
    by auto
  from c obtain i where i: "i < length cs" "cs ! i = c"
    by (auto simp: in_set_conv_nth)
  from d show ?case
  proof
    assume "d = c"
    with i have "subtree_at (Element n a cs) [i] = Some d" by simp
    then show ?thesis by blast
  next
    assume "d \<in> set (descendants c)"
    with 1 c obtain r where "subtree_at c r = Some d" by blast
    with i have "subtree_at (Element n a cs) (i # r) = Some d" by simp
    then show ?thesis by blast
  qed
qed

lemma first_match_enough:
  "sum_list (map element_count work) < n \<Longrightarrow>
     first_match n P work = Some (find P (concat (map (\<lambda>c. c # descendants c) work)))"
proof (induction n arbitrary: work)
  case 0
  then show ?case by simp
next
  case (Suc n)
  show ?case
  proof (cases work)
    case Nil
    then show ?thesis by simp
  next
    case (Cons e rest)
    show ?thesis
    proof (cases "P e")
      case True
      with Cons show ?thesis by simp
    next
      case False
      have "sum_list (map element_count (children e @ rest)) < n"
        using Suc.prems Cons by (simp add: element_count_children [of e])
      then have "first_match n P (children e @ rest) =
          Some (find P (concat (map (\<lambda>c. c # descendants c) (children e @ rest))))"
        by (rule Suc.IH)
      also have "concat (map (\<lambda>c. c # descendants c) (children e @ rest)) =
          descendants e @ concat (map (\<lambda>c. c # descendants c) rest)"
        by (simp add: descendants_children [of e])
      finally show ?thesis
        using Cons False by simp
    qed
  qed
qed

lemma querySelector_steps_enough:
  assumes "element_count e \<le> n"
  shows "querySelector_steps n e s = Some (querySelector e s)"
proof -
  from assms have "sum_list (map element_count (children e)) < n"
    by (simp add: element_count_children [of e])
  then have "first_match n P (children e) = Some (find P (descendants e))" for P
    using first_match_enough [of "children e" n P] by (simp add: descendants_children [of e])
  then show ?thesis
    by (simp add: querySelector_steps_def querySelector_def split: option.splits)
qed

section \<open>Facts about the example documents\<close>

lemma slider_range_input: "range_input (slider v)"
  unfolding slider_def range_input_def by (simp del: list.map add: lower_range)

lemma slider_being_dragged: "being_dragged (slider v) = (v = ''true'')"
  by (simp add: slider_def being_dragged_def)

lemma slider_marker: "attrs (slider v) ''data-dragging'' = Some v"
  by (simp add: slider_def)

lemma plain_slider_marker: "attrs plain_slider ''data-dragging'' = None"
  by (simp add: plain_slider_def)

lemma region_not_range_input: "\<not> range_input (region cs)"
  by (simp add: region_def range_input_def)

lemma descendants_region: "descendants (region cs) = concat (map (\<lambda>c. c # descendants c) cs)"
  by (simp add: region_def)

lemma descendants_slider: "descendants (slider v) = []"
  by (simp add: slider_def)

lemma descendants_plain_slider: "descendants plain_slider = []"
  by (simp add: plain_slider_def)

lemma element_count_region2: "element_count (region [slider v, plain_slider]) = 3"
  by (simp add: region_def slider_def plain_slider_def)

section \<open>Listener registration\<close>

lemma listeners_after_loads:
  "listeners ((htmx_load ^^ n) (initial_page b)) =
     map (\<lambda>i. (''htmx:sseBeforeMessage'', i)) [0..<n] \<and>
   function_objects ((htmx_load ^^ n) (initial_page b)) = n \<and>
   body ((htmx_load ^^ n) (initial_page b)) = b"
proof (induction n)
  case 0
  then show ?case by (simp add: initial_page_def)
next
  case (Suc n)
  then show ?case
    by (auto simp: htmx_load_def onLoad_callback_def addEventListener_def Let_def)
qed

lemma one_listener_per_load:
  "length (listeners_for ''htmx:sseBeforeMessage'' ((htmx_load ^^ n) (initial_page b))) = n"
  by (simp add: listeners_for_def listeners_after_loads)

lemma invoke_all_count: "snd (snd (invoke_all ls pg ev k)) = k + length ls"
  by (induction ls arbitrary: pg ev k) (auto split: sum.splits)

section \<open>The claims\<close>

text \<open>
  Claim C1. For every live-update event whose target has a descendant range-input with
  the drag marker \<^verbatim>\<open>data-dragging\<close> set to \<^verbatim>\<open>true\<close>, the listener calls
  \<^verbatim>\<open>event.preventDefault()\<close>: the event it leaves behind is the received one after
  \<open>preventDefault\<close>, which is canceled when the event is cancelable.
\<close>

theorem suppresses_while_dragging:
  assumes "\<exists>d \<in> set (descendants (target ev)). range_input d \<and> being_dragged d"
  shows "handler pg ev = Inr (pg, preventDefault ev) \<and>
         (cancelable ev \<longrightarrow> defaultPrevented (preventDefault ev))"
  using assms by (simp add: handler_cases preventDefault_def)

theorem suppresses_while_dragging_witness:
  "handler (initial_page (region [slider ''true''])) (update_event (region [slider ''true'']))
     = Inr (initial_page (region [slider ''true'']),
            (update_event (region [slider ''true'']))\<lparr>defaultPrevented := True\<rparr>)"
  using suppresses_while_dragging [of "update_event (region [slider ''true''])"
      "initial_page (region [slider ''true''])"]
  by (simp add: update_event_def descendants_region descendants_slider slider_range_input
      slider_being_dragged preventDefault_def)

text \<open>
  Claim C2. For every live-update event whose target has no descendant range-input with
  the drag marker set to \<^verbatim>\<open>true\<close>, the listener does not call
  \<^verbatim>\<open>preventDefault\<close> and changes nothing: it returns the page and the event as it
  received them.
\<close>

theorem proceeds_without_dragged_control:
  assumes "\<not> (\<exists>d \<in> set (descendants (target ev)). range_input d \<and> being_dragged d)"
  shows "handler pg ev = Inr (pg, ev)"
  using assms by (auto simp: handler_cases)

theorem proceeds_without_dragged_control_witness:
  "handler (initial_page (region [region [], plain_slider]))
      (update_event (region [region [], plain_slider]))
     = Inr (initial_page (region [region [], plain_slider]),
            update_event (region [region [], plain_slider]))"
  using proceeds_without_dragged_control
    [of "update_event (region [region [], plain_slider])"
        "initial_page (region [region [], plain_slider])"]
  by (simp add: update_event_def descendants_region descendants_plain_slider
      region_not_range_input being_dragged_def plain_slider_marker)

text \<open>
  Claim C3. A range-input under the target on which the drag marker is present with a
  value other than \<^verbatim>\<open>true\<close> does not cause suppression: the listener decides as if
  that element were not there, on the other descendants alone. So where the region
  contains such a range-input and no other descendant is a range-input being dragged, the
  update proceeds.
\<close>

theorem falsy_marker_does_not_suppress:
  assumes "attrs d ''data-dragging'' = Some v" and "v \<noteq> ''true''"
  shows "guard ev =
           Inr (\<exists>e \<in> set (descendants (target ev)) - {d}. range_input e \<and> being_dragged e) \<and>
         ((\<forall>e \<in> set (descendants (target ev)) - {d}. \<not> (range_input e \<and> being_dragged e))
            \<longrightarrow> handler pg ev = Inr (pg, ev))"
proof -
  from assms have "\<not> being_dragged d"
    by (simp add: being_dragged_def)
  then have "(\<exists>e \<in> set (descendants (target ev)). range_input e \<and> being_dragged e) =
             (\<exists>e \<in> set (descendants (target ev)) - {d}. range_input e \<and> being_dragged e)"
    by auto
  then show ?thesis
    by (auto simp: guard_iff handler_cases)
qed

theorem falsy_marker_does_not_suppress_witness:
  "slider ''false'' \<in>
     set (descendants (target (update_event (region [slider ''false'', plain_slider])))) \<and>
   range_input (slider ''false'') \<and>
   attrs (slider ''false'') ''data-dragging'' = Some ''false'' \<and>
   guard (update_event (region [slider ''false'', plain_slider])) = Inr False \<and>
   handler (initial_page (region [slider ''false'', plain_slider]))
       (update_event (region [slider ''false'', plain_slider]))
     = Inr (initial_page (region [slider ''false'', plain_slider]),
            update_event (region [slider ''false'', plain_slider]))"
  using falsy_marker_does_not_suppress [of "slider ''false''" "''false''"
      "update_event (region [slider ''false'', plain_slider])"
      "initial_page (region [slider ''false'', plain_slider])"]
  by (simp add: update_event_def descendants_region descendants_slider descendants_plain_slider
      slider_range_input slider_marker being_dragged_def plain_slider_marker)

text \<open>
  Claim C4 says that one listener is attached, once. The script registers its callback
  with \<^verbatim>\<open>htmx.onLoad\<close>, and the callback runs at every \<^verbatim>\<open>htmx:load\<close> event. After
  two such events the body holds two listeners for \<^verbatim>\<open>htmx:sseBeforeMessage\<close>, each
  with a function object of its own, and one live-update event is handled twice.
\<close>

theorem second_load_adds_second_listener:
  "listeners_for ''htmx:sseBeforeMessage''
       (htmx_load (htmx_load (initial_page (region [slider ''true'']))))
     = [(''htmx:sseBeforeMessage'', 0), (''htmx:sseBeforeMessage'', 1)] \<and>
   snd (snd (dispatchEvent (htmx_load (htmx_load (initial_page (region [slider ''true'']))))
          (update_event (region [slider ''true''])))) = 2"
proof -
  have two: "htmx_load (htmx_load (initial_page b)) = (htmx_load ^^ 2) (initial_page b)" for b
    by (simp add: numeral_2_eq_2)
  have ls: "listeners_for ''htmx:sseBeforeMessage''
              (htmx_load (htmx_load (initial_page (region [slider ''true'']))))
            = [(''htmx:sseBeforeMessage'', 0), (''htmx:sseBeforeMessage'', 1)]"
    unfolding two by (simp add: listeners_for_def listeners_after_loads upt_rec del: upt.simps)
  have ty: "event_type (update_event (region [slider ''true''])) = ''htmx:sseBeforeMessage''"
    by (simp add: update_event_def)
  show ?thesis
    unfolding dispatchEvent_def ty ls invoke_all_count by simp
qed

text \<open>
  Claim C5. For every live-update event the listener's only possible effect is the
  cancellation: it returns the page it was given (body, listeners and function objects),
  and the event it returns is the received one or the received one with the canceled flag
  set; target, type and cancelability are the same. The target is the same tree, so no
  attribute of any element, \<^verbatim>\<open>data-dragging\<close> included, is created, changed or
  removed.
\<close>

theorem handler_frame:
  "\<exists>ev'. handler pg ev = Inr (pg, ev') \<and>
         (ev' = ev \<or> ev' = ev\<lparr>defaultPrevented := True\<rparr>) \<and>
         target ev' = target ev \<and> event_type ev' = event_type ev \<and>
         cancelable ev' = cancelable ev"
  by (simp add: handler_cases preventDefault_def)

theorem handler_frame_witness:
  "handler (initial_page two_slider_body) (update_event (region [slider ''true'']))
     = Inr (initial_page two_slider_body,
            (update_event (region [slider ''true'']))\<lparr>defaultPrevented := True\<rparr>) \<and>
   body (initial_page two_slider_body) = two_slider_body \<and>
   target ((update_event (region [slider ''true'']))\<lparr>defaultPrevented := True\<rparr>)
     = region [slider ''true'']"
  using handler_frame [of "initial_page two_slider_body" "update_event (region [slider ''true''])"]
  by (simp add: handler_cases update_event_def descendants_region descendants_slider
      slider_range_input slider_being_dragged preventDefault_def initial_page_def)

text \<open>
  Claim C6. For every live-update event the listener has no error path: the selector of
  line 3 is well formed, so \<^verbatim>\<open>querySelector\<close> does not throw, and neither the
  condition nor the listener ends in an exception.
\<close>

theorem handler_never_throws:
  "querySelector e drag_selector \<noteq> Inl err \<and> guard ev \<noteq> Inl err \<and> handler pg ev \<noteq> Inl err"
  by (simp add: querySelector_drag guard_iff handler_cases)

theorem handler_never_throws_witness:
  "querySelector (region [plain_slider]) drag_selector \<noteq> Inl SyntaxError \<and>
   guard (update_event (region [plain_slider])) \<noteq> Inl SyntaxError \<and>
   handler (initial_page (region [])) (update_event (region [plain_slider])) \<noteq> Inl SyntaxError"
  using handler_never_throws [of "region [plain_slider]" SyntaxError
      "update_event (region [plain_slider])" "initial_page (region [])"]
  by simp

text \<open>
  Claim C7. For every live-update event the listener finishes within its one invocation:
  the traversal ends after at most as many turns of its loop as the target's subtree has
  elements, and the decision it returns then is the listener's result, a normal return.
\<close>

theorem handler_terminates:
  assumes "element_count (target ev) \<le> n"
  shows "handler_steps n pg ev = Some (handler pg ev) \<and> (\<exists>ev'. handler pg ev = Inr (pg, ev'))"
  using assms
  by (auto simp: handler_steps_def querySelector_steps_enough handler_def guard_def
      querySelector_drag split: option.splits sum.splits)

theorem handler_terminates_witness:
  "handler_steps 3 (initial_page (region [])) (update_event (region [slider ''true'', plain_slider]))
     = Some (Inr (initial_page (region []),
         (update_event (region [slider ''true'', plain_slider]))\<lparr>defaultPrevented := True\<rparr>))"
  using handler_terminates [of "update_event (region [slider ''true'', plain_slider])" 3
      "initial_page (region [])"]
  by (simp add: update_event_def element_count_region2 handler_cases descendants_region
      descendants_slider slider_range_input slider_being_dragged preventDefault_def)

text \<open>
  Claim C8. The check looks at strict descendants of the target only. Let the target sit
  at path \<open>p\<close> of the document, and let every range-input of the document that is being
  dragged sit at \<open>p\<close> itself or at a path that does not pass through \<open>p\<close> (the target
  itself, or outside the target's subtree). Then the update is not suppressed.
\<close>

theorem only_strict_descendants:
  assumes tgt: "subtree_at (body pg) p = Some (target ev)"
    and out: "\<And>q d. subtree_at (body pg) q = Some d \<Longrightarrow> range_input d \<Longrightarrow> being_dragged d
                \<Longrightarrow> q = p \<or> \<not> prefix p q"
  shows "handler pg ev = Inr (pg, ev)"
proof -
  have "\<not> (range_input d \<and> being_dragged d)" if "d \<in> set (descendants (target ev))" for d
  proof
    assume m: "range_input d \<and> being_dragged d"
    from that obtain r where r: "r \<noteq> []" "subtree_at (target ev) r = Some d"
      using descendant_path by blast
    with tgt have "subtree_at (body pg) (p @ r) = Some d"
      by (simp add: subtree_at_append)
    with m out have "p @ r = p \<or> \<not> prefix p (p @ r)" by blast
    with r show False by simp
  qed
  then show ?thesis
    by (auto simp: handler_cases)
qed

theorem only_strict_descendants_witness:
  "subtree_at (body (initial_page two_slider_body)) [0]
     = Some (target (update_event (slider ''true''))) \<and>
   range_input (slider ''true'') \<and> being_dragged (slider ''true'') \<and>
   subtree_at (body (initial_page two_slider_body)) [1, 0] = Some (slider ''true'') \<and>
   handler (initial_page two_slider_body) (update_event (slider ''true''))
     = Inr (initial_page two_slider_body, update_event (slider ''true''))"
proof -
  have tgt: "subtree_at (body (initial_page two_slider_body)) [0]
               = Some (target (update_event (slider ''true'')))"
    by (simp add: initial_page_def two_slider_body_def update_event_def)
  have "handler (initial_page two_slider_body) (update_event (slider ''true''))
          = Inr (initial_page two_slider_body, update_event (slider ''true''))"
  proof (rule only_strict_descendants [where p = "[0]"])
    show "subtree_at (body (initial_page two_slider_body)) [0]
            = Some (target (update_event (slider ''true'')))"
      by (rule tgt)
  next
    fix q d
    assume at: "subtree_at (body (initial_page two_slider_body)) q = Some d"
      and ri: "range_input d"
    show "q = [0] \<or> \<not> prefix [0] q"
    proof (cases q)
      case Nil
      with at ri show ?thesis
        by (simp add: initial_page_def two_slider_body_def range_input_def)
    next
      case (Cons i r)
      show ?thesis
      proof (cases "i = 0")
        case True
        with Cons at show ?thesis
          by (cases r) (simp_all add: initial_page_def two_slider_body_def slider_def)
      next
        case False
        with Cons show ?thesis by simp
      qed
    qed
  qed
  moreover have "subtree_at (body (initial_page two_slider_body)) [1, 0] = Some (slider ''true'')"
    by (simp add: initial_page_def two_slider_body_def region_def)
  ultimately show ?thesis
    using tgt by (simp add: slider_range_input slider_being_dragged)
qed

text \<open>
  Claim C9. Suppression requires a \<^verbatim>\<open>data-dragging\<close> value that is exactly the string
  \<^verbatim>\<open>true\<close>: whenever the listener's condition holds, or the listener returns anything
  but the page and the event as received, some range-input under the target holds exactly
  that value. A range-input holding any other value (\<^verbatim>\<open>True\<close>, \<^verbatim>\<open>1\<close>, \<^verbatim>\<open>yes\<close>, the
  empty string) does not bring it about: where the range-inputs under the target all hold
  other values, the update proceeds.
\<close>

theorem suppression_requires_exact_true:
  "(guard ev = Inr True \<or> handler pg ev \<noteq> Inr (pg, ev) \<longrightarrow>
      (\<exists>d \<in> set (descendants (target ev)).
         range_input d \<and> attrs d ''data-dragging'' = Some ''true'')) \<and>
   ((\<forall>d \<in> set (descendants (target ev)).
        range_input d \<longrightarrow> attrs d ''data-dragging'' \<noteq> Some ''true'')
      \<longrightarrow> guard ev = Inr False \<and> handler pg ev = Inr (pg, ev))"
  by (auto simp: guard_iff handler_cases being_dragged_def)

theorem suppression_requires_exact_true_witness:
  "guard (update_event (region [slider ''True'', slider ''1'', slider ''yes'', slider '''']))
     = Inr False \<and>
   handler (initial_page (region []))
       (update_event (region [slider ''True'', slider ''1'', slider ''yes'', slider '''']))
     = Inr (initial_page (region []),
            update_event (region [slider ''True'', slider ''1'', slider ''yes'', slider ''''])) \<and>
   guard (update_event (region [slider ''True'', slider ''true''])) = Inr True \<and>
   (\<exists>d \<in> set (descendants (target (update_event (region [slider ''True'', slider ''true''])))).
      range_input d \<and> attrs d ''data-dragging'' = Some ''true'')"
  using suppression_requires_exact_true
    [of "update_event (region [slider ''True'', slider ''1'', slider ''yes'', slider ''''])"
        "initial_page (region [])"]
    suppression_requires_exact_true
    [of "update_event (region [slider ''True'', slider ''true''])" "initial_page (region [])"]
  by (simp add: update_event_def descendants_region descendants_slider slider_marker
      guard_iff slider_range_input slider_being_dragged)

text \<open>
  Claim C10. The decision is a function of the subtree under the target: two invocations
  whose targets have the same children take the same decision, whatever the page, the
  target's own name and attributes, and the other fields of the event are.
\<close>

theorem decision_depends_on_subtree_only:
  assumes "children (target ev1) = children (target ev2)"
  shows "guard ev1 = guard ev2 \<and>
         (\<exists>b. handler pg1 ev1 = Inr (pg1, if b then preventDefault ev1 else ev1) \<and>
              handler pg2 ev2 = Inr (pg2, if b then preventDefault ev2 else ev2))"
proof -
  have "descendants (target ev1) = descendants (target ev2)"
    using assms by (simp add: descendants_children [of "target ev1"]
        descendants_children [of "target ev2"])
  then show ?thesis
    by (auto simp: guard_iff handler_cases)
qed

theorem decision_depends_on_subtree_only_witness:
  "children (target (update_event (region [slider ''true'']))) =
     children (target \<lparr>event_type = ''click'',
                        target = Element ''section'' [''id'' \<mapsto> ''volume''] [slider ''true''],
                        cancelable = False, defaultPrevented = False\<rparr>) \<and>
   guard (update_event (region [slider ''true''])) =
     guard \<lparr>event_type = ''click'',
            target = Element ''section'' [''id'' \<mapsto> ''volume''] [slider ''true''],
            cancelable = False, defaultPrevented = False\<rparr>"
  using decision_depends_on_subtree_only
    [of "update_event (region [slider ''true''])"
        "\<lparr>event_type = ''click'',
          target = Element ''section'' [''id'' \<mapsto> ''volume''] [slider ''true''],
          cancelable = False, defaultPrevented = False\<rparr>"]
  by (simp add: update_event_def region_def)

end
